theory Spec2Isabelle
  imports Main
begin

section \<open>The user service: data model\<close>

text \<open>
  The service of \<^verbatim>\<open>src/user_service/main.py\<close> keeps one SQLite table,
  \<^verbatim>\<open>
  CREATE TABLE IF NOT EXISTS users (
      id INTEGER PRIMARY KEY AUTOINCREMENT,
      username TEXT UNIQUE NOT NULL,
      email TEXT UNIQUE NOT NULL,
      password_hash TEXT NOT NULL,
      created_at TEXT NOT NULL)
  \<close>
  and five request handlers over it. Python strings are modelled by their UTF-8 byte
  sequence (\<open>string\<close>), Python integers by \<open>int\<close>. Field names carry a prefix
  because the source reuses \<open>id\<close>, \<open>username\<close>, \<open>email\<close> in several classes.
\<close>

record users_row =
  row_id :: int
  row_username :: string
  row_email :: string
  row_password_hash :: string
  row_created_at :: string

text \<open>
  The database file: the rows of \<open>users\<close> in the order of the table's B-tree (ascending
  rowid, which is the order of a scan without \<^verbatim>\<open>ORDER BY\<close>), and the entry of
  \<^verbatim>\<open>sqlite_sequence\<close> that \<^verbatim>\<open>AUTOINCREMENT\<close> maintains: the largest rowid
  the table has ever held (\<open>0\<close> while there is no entry).
\<close>

record db =
  rows :: "users_row list"
  seq :: int

record UserCreate =
  uc_username :: string
  uc_email :: string
  uc_password :: string

record UserResponse =
  resp_id :: int
  resp_username :: string
  resp_email :: string
  resp_created_at :: string

record UserLogin =
  ul_username :: string
  ul_password :: string

text \<open>The dictionary \<^verbatim>\<open>{"message": ..., "user": {"id", "username", "email"}}\<close> of a login.\<close>

record login_user_view =
  lu_id :: int
  lu_username :: string
  lu_email :: string

record login_response =
  lr_message :: string
  lr_user :: login_user_view

text \<open>
  Exceptions as values. \<open>error\<close> are the exceptions of Python and of the \<^verbatim>\<open>sqlite3\<close>
  module that the handlers can meet, each with the text that \<^verbatim>\<open>str(e)\<close> returns;
  \<open>exn\<close> adds FastAPI's \<^verbatim>\<open>HTTPException(status_code, detail)\<close>.
\<close>

datatype error =
    IntegrityError string
  | OperationalError string
  | OverflowError string
  | TypeError string

datatype exn = HTTPException nat string | Exception error

fun str :: "error \<Rightarrow> string" where
  "str (IntegrityError m) = m"
| "str (OperationalError m) = m"
| "str (OverflowError m) = m"
| "str (TypeError m) = m"

section \<open>The storage engine\<close>

definition MAX_ROWID :: int where
  "MAX_ROWID = 9223372036854775807"

text \<open>\<^verbatim>\<open>init_db\<close>: \<open>None\<close> is a database file without the table.\<close>

fun init_db :: "db option \<Rightarrow> db" where
  "init_db None = \<lparr>rows = [], seq = 0\<rparr>"
| "init_db (Some d) = d"

text \<open>
  Binding a Python integer to a \<^verbatim>\<open>?\<close> parameter: SQLite integers are signed 64-bit
  and the \<^verbatim>\<open>sqlite3\<close> module raises \<^verbatim>\<open>OverflowError\<close> outside that range.
\<close>

definition bind_int :: "int \<Rightarrow> exn + int" where
  "bind_int i =
     (if - MAX_ROWID - 1 \<le> i \<and> i \<le> MAX_ROWID then Inr i
      else Inl (Exception (OverflowError ''Python int too large to convert to SQLite INTEGER'')))"

text \<open>\<^verbatim>\<open>SELECT id FROM users WHERE username = ? OR email = ?\<close>, then \<^verbatim>\<open>fetchone()\<close>.\<close>

definition select_username_or_email :: "db \<Rightarrow> string \<Rightarrow> string \<Rightarrow> users_row option" where
  "select_username_or_email d u e =
     find (\<lambda>r. row_username r = u \<or> row_email r = e) (rows d)"

text \<open>\<^verbatim>\<open>SELECT ... FROM users WHERE id = ?\<close>, then \<^verbatim>\<open>fetchone()\<close>.\<close>

definition select_id :: "db \<Rightarrow> int \<Rightarrow> users_row option" where
  "select_id d i = find (\<lambda>r. row_id r = i) (rows d)"

text \<open>\<^verbatim>\<open>SELECT ... FROM users WHERE username = ? AND password_hash = ?\<close>, then \<^verbatim>\<open>fetchone()\<close>.\<close>

definition select_credentials :: "db \<Rightarrow> string \<Rightarrow> string \<Rightarrow> users_row option" where
  "select_credentials d u h =
     find (\<lambda>r. row_username r = u \<and> row_password_hash r = h) (rows d)"

text \<open>
  The rowid of a new row under \<^verbatim>\<open>AUTOINCREMENT\<close>: one more than the larger of the
  last rowid of the table and the \<^verbatim>\<open>sqlite_sequence\<close> entry; when either is the
  largest 64-bit integer the insert fails with \<^verbatim>\<open>SQLITE_FULL\<close>.
\<close>

definition new_rowid :: "db \<Rightarrow> exn + int" where
  "new_rowid d =
     (let largest = (if rows d = [] then 0 else row_id (last (rows d)))
      in if MAX_ROWID \<le> largest \<or> seq d = MAX_ROWID
         then Inl (Exception (OperationalError ''database or disk is full''))
         else Inr (max (largest + 1) (seq d + 1)))"

text \<open>
  \<^verbatim>\<open>INSERT INTO users (username, email, password_hash, created_at) VALUES (?, ?, ?, ?)\<close>
  and \<^verbatim>\<open>commit()\<close>. The rowid is chosen first, then the two \<^verbatim>\<open>UNIQUE\<close> indexes are
  checked (SQLite checks the index on \<open>email\<close> before the one on \<open>username\<close>); a failed
  statement changes nothing. The result is \<^verbatim>\<open>cursor.lastrowid\<close> and the new database.
\<close>

definition insert_user :: "db \<Rightarrow> string \<Rightarrow> string \<Rightarrow> string \<Rightarrow> string \<Rightarrow> exn + (int \<times> db)" where
  "insert_user d u e h c =
     (case new_rowid d of
        Inl x \<Rightarrow> Inl x
      | Inr i \<Rightarrow>
          if list_ex (\<lambda>r. row_email r = e) (rows d)
          then Inl (Exception (IntegrityError ''UNIQUE constraint failed: users.email''))
          else if list_ex (\<lambda>r. row_username r = u) (rows d)
          then Inl (Exception (IntegrityError ''UNIQUE constraint failed: users.username''))
          else Inr (i, \<lparr>rows = insort_key row_id
                               \<lparr>row_id = i, row_username = u, row_email = e,
                                row_password_hash = h, row_created_at = c\<rparr> (rows d),
                       seq = max (seq d) i\<rparr>))"

text \<open>\<^verbatim>\<open>DELETE FROM users WHERE id = ?\<close> and \<^verbatim>\<open>commit()\<close>.\<close>

definition delete_id :: "db \<Rightarrow> int \<Rightarrow> db" where
  "delete_id d i = d\<lparr>rows := filter (\<lambda>r. row_id r \<noteq> i) (rows d)\<rparr>"

subsection \<open>Writes of concurrent requests\<close>

text \<open>
  Every handler opens its own connection and runs its statements in autocommit steps, so
  between two statements of one handler other requests may commit theirs. The only
  statements that change the table are the \<^verbatim>\<open>INSERT\<close> of \<^verbatim>\<open>register_user\<close> and
  the \<^verbatim>\<open>DELETE\<close> of \<^verbatim>\<open>delete_user\<close>; a \<open>stmt list\<close> is what concurrent requests
  commit at one such point, in commit order (the empty list when the handler runs alone).
  Failures of the engine that depend on time or on the machine (a lock held too long, an
  I/O error) are outside the model.
\<close>

datatype stmt =
    InsertUser string string string string
  | DeleteUser int

fun commit :: "db \<Rightarrow> stmt \<Rightarrow> db" where
  "commit d (InsertUser u e h c) =
     (case insert_user d u e h c of Inl _ \<Rightarrow> d | Inr (_, d') \<Rightarrow> d')"
| "commit d (DeleteUser i) = delete_id d i"

fun commits :: "db \<Rightarrow> stmt list \<Rightarrow> db" where
  "commits d [] = d"
| "commits d (w # ws) = commits (commit d w) ws"

section \<open>The handlers\<close>

text \<open>
  \<^verbatim>\<open>hash_password\<close> is \<^verbatim>\<open>hashlib.sha256(password.encode()).hexdigest()\<close>. The
  library's digest (bytes to hexadecimal text) is the parameter \<open>sha256\<close>; \<open>encode\<close> is
  the identity on the UTF-8 bytes that model the string.
\<close>

definition encode :: "string \<Rightarrow> string" where
  "encode s = s"

definition hash_password :: "(string \<Rightarrow> string) \<Rightarrow> string \<Rightarrow> string" where
  "hash_password sha256 password = sha256 (encode password)"

definition user_response :: "users_row \<Rightarrow> UserResponse" where
  "user_response row =
     \<lparr>resp_id = row_id row, resp_username = row_username row,
      resp_email = row_email row, resp_created_at = row_created_at row\<rparr>"

text \<open>The text of the \<^verbatim>\<open>TypeError\<close> that \<^verbatim>\<open>row['id']\<close> raises when \<open>row\<close> is \<^verbatim>\<open>None\<close>.\<close>

definition not_subscriptable :: string where
  "not_subscriptable = CHR 0x27 # ''NoneType'' @ CHR 0x27 # '' object is not subscriptable''"

text \<open>
  The \<^verbatim>\<open>try\<close> block of \<^verbatim>\<open>register_user\<close>. \<open>created_at\<close> is the value of
  \<^verbatim>\<open>datetime.utcnow().isoformat()\<close>; \<open>env1\<close> is what concurrent requests commit
  between the \<^verbatim>\<open>SELECT\<close> and the \<^verbatim>\<open>INSERT\<close>, \<open>env2\<close> between the commit and the
  \<^verbatim>\<open>SELECT\<close> of the created row. \<^verbatim>\<open>row['id']\<close> on \<^verbatim>\<open>None\<close> raises
  \<^verbatim>\<open>TypeError\<close>. The second component is the database when the handler ends.
\<close>

definition register_try ::
  "(string \<Rightarrow> string) \<Rightarrow> string \<Rightarrow> stmt list \<Rightarrow> stmt list \<Rightarrow> db \<Rightarrow> UserCreate
     \<Rightarrow> (exn + UserResponse) \<times> db" where
  "register_try sha256 created_at env1 env2 d user =
     (case select_username_or_email d (uc_username user) (uc_email user) of
        Some _ \<Rightarrow> (Inl (HTTPException 400 ''Username or email already exists''), d)
      | None \<Rightarrow>
          (let password_hash = hash_password sha256 (uc_password user);
               d1 = commits d env1
           in case insert_user d1 (uc_username user) (uc_email user) password_hash created_at of
                Inl e \<Rightarrow> (Inl e, d1)
              | Inr (user_id, d2) \<Rightarrow>
                  (let d3 = commits d2 env2
                   in case select_id d3 user_id of
                        None \<Rightarrow> (Inl (Exception (TypeError not_subscriptable)), d3)
                      | Some row \<Rightarrow> (Inr (user_response row), d3))))"

text \<open>
  \<^verbatim>\<open>register_user\<close>: the \<^verbatim>\<open>try\<close> block under its two \<^verbatim>\<open>except\<close> clauses.
  \<^verbatim>\<open>except HTTPException: raise\<close> comes first; every other exception becomes
  \<^verbatim>\<open>HTTPException(status_code=500, detail=str(e))\<close>.
\<close>

fun except_clauses :: "exn \<Rightarrow> exn" where
  "except_clauses (HTTPException status_code detail) = HTTPException status_code detail"
| "except_clauses (Exception e) = HTTPException 500 (str e)"

definition register_user ::
  "(string \<Rightarrow> string) \<Rightarrow> string \<Rightarrow> stmt list \<Rightarrow> stmt list \<Rightarrow> db \<Rightarrow> UserCreate
     \<Rightarrow> (exn + UserResponse) \<times> db" where
  "register_user sha256 created_at env1 env2 d user =
     (case register_try sha256 created_at env1 env2 d user of
        (Inl e, d') \<Rightarrow> (Inl (except_clauses e), d')
      | (Inr r, d') \<Rightarrow> (Inr r, d'))"

definition login_ok :: "users_row \<Rightarrow> login_response" where
  "login_ok row =
     \<lparr>lr_message = ''Login successful'',
      lr_user = \<lparr>lu_id = row_id row, lu_username = row_username row,
                 lu_email = row_email row\<rparr>\<rparr>"

definition login_user ::
  "(string \<Rightarrow> string) \<Rightarrow> db \<Rightarrow> UserLogin \<Rightarrow> (exn + login_response) \<times> db" where
  "login_user sha256 d credentials =
     (let password_hash = hash_password sha256 (ul_password credentials)
      in case select_credentials d (ul_username credentials) password_hash of
           None \<Rightarrow> (Inl (HTTPException 401 ''Invalid credentials''), d)
         | Some row \<Rightarrow> (Inr (login_ok row), d))"

definition get_all_users :: "db \<Rightarrow> UserResponse list \<times> db" where
  "get_all_users d = (map user_response (rows d), d)"

definition get_user :: "db \<Rightarrow> int \<Rightarrow> (exn + UserResponse) \<times> db" where
  "get_user d user_id =
     (case bind_int user_id of
        Inl e \<Rightarrow> (Inl e, d)
      | Inr i \<Rightarrow>
          (case select_id d i of
             None \<Rightarrow> (Inl (HTTPException 404 ''User not found''), d)
           | Some row \<Rightarrow> (Inr (user_response row), d)))"

text \<open>The decimal text of an integer, as the f-string \<^verbatim>\<open>f"{user_id}"\<close> prints it.\<close>

fun digits :: "nat \<Rightarrow> string" where
  "digits n =
     (if n < 10 then [''0123456789'' ! n]
      else digits (n div 10) @ [''0123456789'' ! (n mod 10)])"

declare digits.simps [simp del]

definition str_int :: "int \<Rightarrow> string" where
  "str_int i = (if i < 0 then CHR ''-'' # digits (nat (- i)) else digits (nat i))"

text \<open>
  \<^verbatim>\<open>delete_user\<close>; \<open>env\<close> is what concurrent requests commit between its
  \<^verbatim>\<open>SELECT\<close> and its \<^verbatim>\<open>DELETE\<close>. The result is the \<^verbatim>\<open>message\<close> of the
  returned dictionary.
\<close>

definition delete_user :: "stmt list \<Rightarrow> db \<Rightarrow> int \<Rightarrow> (exn + string) \<times> db" where
  "delete_user env d user_id =
     (case bind_int user_id of
        Inl e \<Rightarrow> (Inl e, d)
      | Inr i \<Rightarrow>
          (case select_id d i of
             None \<Rightarrow> (Inl (HTTPException 404 ''User not found''), d)
           | Some _ \<Rightarrow>
               (Inr (''User '' @ str_int user_id @ '' deleted successfully''),
                delete_id (commits d env) i)))"

section \<open>Histories of calls\<close>

text \<open>
  A history is a sequence of handler calls, each with the writes that concurrent requests
  commit inside it, and of writes that concurrent requests commit between two calls.
\<close>

datatype call =
    Register string "stmt list" "stmt list" UserCreate
  | Login UserLogin
  | GetAllUsers
  | GetUser int
  | DeleteAccount "stmt list" int
  | Concurrent "stmt list"

fun step :: "(string \<Rightarrow> string) \<Rightarrow> db \<Rightarrow> call \<Rightarrow> db" where
  "step sha256 d (Register created_at env1 env2 user) =
     snd (register_user sha256 created_at env1 env2 d user)"
| "step sha256 d (Login credentials) = snd (login_user sha256 d credentials)"
| "step sha256 d GetAllUsers = snd (get_all_users d)"
| "step sha256 d (GetUser user_id) = snd (get_user d user_id)"
| "step sha256 d (DeleteAccount env user_id) = snd (delete_user env d user_id)"
| "step sha256 d (Concurrent env) = commits d env"

fun run_calls :: "(string \<Rightarrow> string) \<Rightarrow> db \<Rightarrow> call list \<Rightarrow> db" where
  "run_calls sha256 d [] = d"
| "run_calls sha256 d (c # cs) = run_calls sha256 (step sha256 d c) cs"

text \<open>The rowids that the successful \<^verbatim>\<open>INSERT\<close> statements of a list of writes assign.\<close>

fun assigned :: "db \<Rightarrow> stmt list \<Rightarrow> int list" where
  "assigned d [] = []"
| "assigned d (InsertUser u e h c # ws) =
     (case insert_user d u e h c of
        Inl _ \<Rightarrow> assigned d ws
      | Inr (i, d') \<Rightarrow> i # assigned d' ws)"
| "assigned d (DeleteUser i # ws) = assigned (delete_id d i) ws"

text \<open>
  The ids issued during a call: the id in the view that a successful \<^verbatim>\<open>register_user\<close>
  returns, and the ids that the concurrent registrations inside the call are assigned.
\<close>

fun issued_by :: "(string \<Rightarrow> string) \<Rightarrow> db \<Rightarrow> call \<Rightarrow> int list" where
  "issued_by sha256 d (Register created_at env1 env2 user) =
     (case select_username_or_email d (uc_username user) (uc_email user) of
        Some _ \<Rightarrow> []
      | None \<Rightarrow>
          assigned d env1 @
          (case insert_user (commits d env1) (uc_username user) (uc_email user)
                  (hash_password sha256 (uc_password user)) created_at of
             Inl _ \<Rightarrow> []
           | Inr (_, d2) \<Rightarrow>
               (case fst (register_user sha256 created_at env1 env2 d user) of
                  Inl _ \<Rightarrow> []
                | Inr r \<Rightarrow> [resp_id r]) @ assigned d2 env2))"
| "issued_by sha256 d (DeleteAccount env user_id) =
     (case fst (delete_user env d user_id) of Inl _ \<Rightarrow> [] | Inr _ \<Rightarrow> assigned d env)"
| "issued_by sha256 d (Concurrent env) = assigned d env"
| "issued_by sha256 d _ = []"

fun issued :: "(string \<Rightarrow> string) \<Rightarrow> db \<Rightarrow> call list \<Rightarrow> int list" where
  "issued sha256 d [] = []"
| "issued sha256 d (c # cs) = issued_by sha256 d c @ issued sha256 (step sha256 d c) cs"

text \<open>
  The write statements that a call commits, its own and the concurrent ones, in commit
  order, and the log of a history.
\<close>

fun writes :: "(string \<Rightarrow> string) \<Rightarrow> db \<Rightarrow> call \<Rightarrow> stmt list" where
  "writes sha256 d (Register created_at env1 env2 user) =
     (case select_username_or_email d (uc_username user) (uc_email user) of
        Some _ \<Rightarrow> []
      | None \<Rightarrow>
          env1 @ [InsertUser (uc_username user) (uc_email user)
                    (hash_password sha256 (uc_password user)) created_at] @
          (case insert_user (commits d env1) (uc_username user) (uc_email user)
                  (hash_password sha256 (uc_password user)) created_at of
             Inl _ \<Rightarrow> []
           | Inr _ \<Rightarrow> env2))"
| "writes sha256 d (DeleteAccount env user_id) =
     (case fst (delete_user env d user_id) of
        Inl _ \<Rightarrow> []
      | Inr _ \<Rightarrow> env @ [DeleteUser user_id])"
| "writes sha256 d (Concurrent env) = env"
| "writes sha256 d _ = []"

fun log :: "(string \<Rightarrow> string) \<Rightarrow> db \<Rightarrow> call list \<Rightarrow> stmt list" where
  "log sha256 d [] = []"
| "log sha256 d (c # cs) = writes sha256 d c @ log sha256 (step sha256 d c) cs"

text \<open>
  The accounts in creation order, as the specification words the listing: replaying the
  writes, a created account goes to the end of the sequence and a deleted one leaves it.
\<close>

fun creation_order :: "db \<Rightarrow> users_row list \<Rightarrow> stmt list \<Rightarrow> users_row list" where
  "creation_order d live [] = live"
| "creation_order d live (InsertUser u e h c # ws) =
     (case insert_user d u e h c of
        Inl _ \<Rightarrow> creation_order d live ws
      | Inr (i, d') \<Rightarrow>
          creation_order d'
            (live @ [\<lparr>row_id = i, row_username = u, row_email = e,
                      row_password_hash = h, row_created_at = c\<rparr>]) ws)"
| "creation_order d live (DeleteUser i # ws) =
     creation_order (delete_id d i) (filter (\<lambda>r. row_id r \<noteq> i) live) ws"

text \<open>Calls that register nothing: no \<^verbatim>\<open>register_user\<close>, no concurrent \<^verbatim>\<open>INSERT\<close>.\<close>

fun is_delete :: "stmt \<Rightarrow> bool" where
  "is_delete (InsertUser u e h c) = False"
| "is_delete (DeleteUser i) = True"

fun registers_nothing :: "call \<Rightarrow> bool" where
  "registers_nothing (Register created_at env1 env2 user) = False"
| "registers_nothing (DeleteAccount env user_id) = list_all is_delete env"
| "registers_nothing (Concurrent env) = list_all is_delete env"
| "registers_nothing _ = True"

text \<open>
  What the schema guarantees of a database file: rowids ascending (\<^verbatim>\<open>PRIMARY KEY\<close>)
  and not above the \<^verbatim>\<open>sqlite_sequence\<close> entry (\<^verbatim>\<open>AUTOINCREMENT\<close>), and both
  \<^verbatim>\<open>UNIQUE\<close> columns free of duplicates.
\<close>

definition table_ok :: "db \<Rightarrow> bool" where
  "table_ok d \<longleftrightarrow>
     0 \<le> seq d \<and> sorted_wrt (<) (map row_id (rows d))
     \<and> list_all (\<lambda>r. row_id r \<le> seq d) (rows d)
     \<and> distinct (map row_username (rows d)) \<and> distinct (map row_email (rows d))"



section \<open>Evaluation and basic facts\<close>

lemmas eval_simps = register_user_def register_try_def select_username_or_email_def
  insert_user_def new_rowid_def MAX_ROWID_def hash_password_def encode_def select_id_def
  user_response_def delete_user_def get_user_def bind_int_def delete_id_def str_int_def
  login_user_def select_credentials_def login_ok_def get_all_users_def digits.simps

lemma find_None_list_ex: "(find P xs = None) = (\<not> list_ex P xs)"
  by (induction xs) auto

lemma find_SomeD: "find P xs = Some x \<Longrightarrow> P x \<and> x \<in> set xs"
  by (induction xs) (auto split: if_splits)


lemma commits_append: "commits d (xs @ ys) = commits (commits d xs) ys"
  by (induction xs arbitrary: d) auto

section \<open>The schema's guarantees hold in every reachable database\<close>

lemma new_rowid_seq: "new_rowid d = Inr i \<Longrightarrow> seq d < i"
  by (auto simp: new_rowid_def Let_def split: if_splits)

lemma new_rowid_ok: "table_ok d \<Longrightarrow> new_rowid d = Inr i \<Longrightarrow> i = seq d + 1"
  by (cases "rows d" rule: rev_cases)
     (auto simp: new_rowid_def Let_def table_ok_def split: if_splits)

lemma insort_last:
  "\<forall>r\<in>set xs. f r < f x \<Longrightarrow> insort_key f x xs = xs @ [x]"
  by (induction xs) auto

lemma insert_user_Inr:
  assumes "table_ok d" and "insert_user d u e h c = Inr (i, d')"
  shows "i = seq d + 1"
    and "d' = \<lparr>rows = rows d @ [\<lparr>row_id = i, row_username = u, row_email = e,
                  row_password_hash = h, row_created_at = c\<rparr>], seq = i\<rparr>"
    and "u \<notin> row_username ` set (rows d)" and "e \<notin> row_email ` set (rows d)"
proof -
  from assms(2) obtain j where j: "new_rowid d = Inr j"
    by (auto simp: insert_user_def split: sum.splits)
  with assms(1) have js: "j = seq d + 1" by (rule new_rowid_ok)
  from assms(2) j have ij: "i = j"
    by (auto simp: insert_user_def split: if_splits)
  show "i = seq d + 1" using ij js by simp
  have lt: "\<forall>r\<in>set (rows d). row_id r < i"
    using assms(1) ij js by (auto simp: table_ok_def list_all_iff)
  show "d' = \<lparr>rows = rows d @ [\<lparr>row_id = i, row_username = u, row_email = e,
                  row_password_hash = h, row_created_at = c\<rparr>], seq = i\<rparr>"
    using assms(2) j ij js lt by (auto simp: insert_user_def insort_last split: if_splits)
  show "u \<notin> row_username ` set (rows d)" "e \<notin> row_email ` set (rows d)"
    using assms(2) j by (auto simp: insert_user_def list_ex_iff split: if_splits)
qed

lemma insert_user_ok:
  assumes "table_ok d" and "insert_user d u e h c = Inr (i, d')"
  shows "table_ok d'"
  using insert_user_Inr[OF assms] assms(1)
  by (auto simp: table_ok_def list_all_iff sorted_wrt_append)

lemma delete_id_ok: "table_ok d \<Longrightarrow> table_ok (delete_id d i)"
  by (auto simp: table_ok_def delete_id_def list_all_iff sorted_wrt_filter distinct_map_filter
      sorted_wrt_map)

lemma commit_ok: "table_ok d \<Longrightarrow> table_ok (commit d w)"
  by (cases w) (auto simp: delete_id_ok dest: insert_user_ok split: sum.splits)

lemma commits_ok: "table_ok d \<Longrightarrow> table_ok (commits d ws)"
  by (induction ws arbitrary: d) (auto simp: commit_ok)

lemma step_writes: "step sha256 d c = commits d (writes sha256 d c)"
  by (cases c)
     (auto simp: register_user_def register_try_def login_user_def get_all_users_def get_user_def
        delete_user_def Let_def commits_append bind_int_def split: option.splits sum.splits prod.splits)

lemma step_ok: "table_ok d \<Longrightarrow> table_ok (step sha256 d c)"
  by (simp add: step_writes commits_ok)

lemma run_calls_ok: "table_ok d \<Longrightarrow> table_ok (run_calls sha256 d cs)"
  by (induction cs arbitrary: d) (auto simp: step_ok)

lemma init_ok: "table_ok (init_db None)"
  by (simp add: table_ok_def)

lemma reachable_ok: "table_ok (run_calls sha256 (init_db None) cs)"
  by (rule run_calls_ok [OF init_ok])

section \<open>Registration: the outcome of a conflict at insert time\<close>




section \<open>Registration: what an unexpected error shows the caller\<close>

text \<open>
  C2 (as the code has it). Whenever the \<^verbatim>\<open>try\<close> block of \<open>register_user\<close> raises an
  exception other than \<^verbatim>\<open>HTTPException\<close>, the handler answers with status 500 and
  \<^verbatim>\<open>detail=str(e)\<close>: the caller reads the text of the underlying exception.
\<close>

theorem register_error_detail:
  assumes "register_try sha256 created_at env1 env2 d user = (Inl (Exception e), d')"
  shows "register_user sha256 created_at env1 env2 d user = (Inl (HTTPException 500 (str e)), d')"
  using assms by (simp add: register_user_def)

theorem register_error_detail_witness:
  "register_try id ''t1'' [InsertUser ''bob'' ''a@x.com'' ''h'' ''t0''] [] (init_db None)
       \<lparr>uc_username = ''alice'', uc_email = ''a@x.com'', uc_password = ''pw1''\<rparr>
     = (Inl (Exception (IntegrityError ''UNIQUE constraint failed: users.email'')),
        commits (init_db None) [InsertUser ''bob'' ''a@x.com'' ''h'' ''t0''])
   \<and> register_user id ''t1'' [InsertUser ''bob'' ''a@x.com'' ''h'' ''t0''] [] (init_db None)
       \<lparr>uc_username = ''alice'', uc_email = ''a@x.com'', uc_password = ''pw1''\<rparr>
     = (Inl (HTTPException 500 ''UNIQUE constraint failed: users.email''),
        commits (init_db None) [InsertUser ''bob'' ''a@x.com'' ''h'' ''t0''])"
proof -
  have a: "register_try id ''t1'' [InsertUser ''bob'' ''a@x.com'' ''h'' ''t0''] [] (init_db None)
       \<lparr>uc_username = ''alice'', uc_email = ''a@x.com'', uc_password = ''pw1''\<rparr>
     = (Inl (Exception (IntegrityError ''UNIQUE constraint failed: users.email'')),
        commits (init_db None) [InsertUser ''bob'' ''a@x.com'' ''h'' ''t0''])"
    by (simp add: register_try_def select_username_or_email_def insert_user_def new_rowid_def
        MAX_ROWID_def)
  from register_error_detail [OF a] a show ?thesis by simp
qed

text \<open>
  The message is not generic: two storage errors give two details, each the text of the
  exception, naming the table and the column of the violated index.
\<close>

theorem register_error_detail_counterexample:
  "fst (register_try id ''t1'' [InsertUser ''alice'' ''b@x.com'' ''h'' ''t0''] [] (init_db None)
         \<lparr>uc_username = ''alice'', uc_email = ''a@x.com'', uc_password = ''pw1''\<rparr>)
     = Inl (Exception (IntegrityError ''UNIQUE constraint failed: users.username''))
   \<and> fst (register_user id ''t1'' [InsertUser ''alice'' ''b@x.com'' ''h'' ''t0''] [] (init_db None)
         \<lparr>uc_username = ''alice'', uc_email = ''a@x.com'', uc_password = ''pw1''\<rparr>)
     = Inl (HTTPException 500 ''UNIQUE constraint failed: users.username'')
   \<and> fst (register_user id ''t1'' [InsertUser ''bob'' ''a@x.com'' ''h'' ''t0''] [] (init_db None)
         \<lparr>uc_username = ''alice'', uc_email = ''a@x.com'', uc_password = ''pw1''\<rparr>)
     = Inl (HTTPException 500 ''UNIQUE constraint failed: users.email'')"
  by (simp add: eval_simps)

section \<open>Login\<close>



section \<open>Login failures\<close>



section \<open>Deletion, then lookup\<close>

lemma rows_commits_deletes:
  "list_all is_delete ws \<Longrightarrow> set (rows (commits d ws)) \<subseteq> set (rows d)"
proof (induction ws arbitrary: d)
  case Nil
  then show ?case by simp
next
  case (Cons w ws)
  then obtain i where w: "w = DeleteUser i" by (cases w) auto
  from Cons have "set (rows (commits (commit d w) ws)) \<subseteq> set (rows (commit d w))" by simp
  also have "\<dots> \<subseteq> set (rows d)" by (auto simp: w delete_id_def)
  finally show ?case by simp
qed

lemma writes_registers_nothing:
  "registers_nothing c \<Longrightarrow> list_all is_delete (writes sha256 d c)"
  by (cases c) (auto split: sum.splits)

lemma step_registers_nothing:
  "registers_nothing c \<Longrightarrow> set (rows (step sha256 d c)) \<subseteq> set (rows d)"
  by (simp add: step_writes rows_commits_deletes writes_registers_nothing)

lemma run_registers_nothing:
  "list_all registers_nothing cs \<Longrightarrow> set (rows (run_calls sha256 d cs)) \<subseteq> set (rows d)"
proof (induction cs arbitrary: d)
  case Nil
  then show ?case by simp
next
  case (Cons c cs)
  then have "set (rows (run_calls sha256 (step sha256 d c) cs)) \<subseteq> set (rows (step sha256 d c))"
    by simp
  also have "\<dots> \<subseteq> set (rows d)" using Cons.prems by (simp add: step_registers_nothing)
  finally show ?case by simp
qed

lemma select_id_None: "(select_id d i = None) = (i \<notin> row_id ` set (rows d))"
  by (auto simp: select_id_def find_None_list_ex list_ex_iff)

text \<open>
  C7. If \<open>delete_user\<close> succeeds for an id, then \<open>get_user\<close> for that id answers 404 on
  the resulting database, also after any further calls among which nothing registers.
\<close>

theorem delete_then_get_not_found:
  assumes "fst (delete_user env d user_id) = Inr m"
    and "list_all registers_nothing cs"
  shows "fst (get_user (run_calls sha256 (snd (delete_user env d user_id)) cs) user_id)
         = Inl (HTTPException 404 ''User not found'')"
proof -
  from assms(1) have b: "bind_int user_id = Inr user_id"
    by (auto simp: delete_user_def bind_int_def split: if_splits)
  with assms(1) have s: "snd (delete_user env d user_id) = delete_id (commits d env) user_id"
    by (auto simp: delete_user_def split: option.splits)
  have "user_id \<notin> row_id ` set (rows (delete_id (commits d env) user_id))"
    by (auto simp: delete_id_def)
  with run_registers_nothing [OF assms(2), of sha256 "delete_id (commits d env) user_id"]
  have "user_id \<notin> row_id ` set (rows (run_calls sha256 (delete_id (commits d env) user_id) cs))"
    by blast
  then have "select_id (run_calls sha256 (delete_id (commits d env) user_id) cs) user_id = None"
    by (simp only: select_id_None not_False_eq_True)
  then show ?thesis by (simp add: get_user_def b s)
qed

theorem delete_then_get_not_found_witness:
  "fst (delete_user [] (snd (register_user rev ''t1'' [] [] (init_db None)
          \<lparr>uc_username = ''bob'', uc_email = ''b@y.com'', uc_password = ''secret''\<rparr>)) 1)
     = Inr ''User 1 deleted successfully''
   \<and> list_all registers_nothing [GetAllUsers, DeleteAccount [] 1]
   \<and> fst (get_user (run_calls rev (snd (delete_user [] (snd (register_user rev ''t1'' [] []
          (init_db None) \<lparr>uc_username = ''bob'', uc_email = ''b@y.com'', uc_password = ''secret''\<rparr>)) 1))
          [GetAllUsers, DeleteAccount [] 1]) 1)
     = Inl (HTTPException 404 ''User not found'')"
proof -
  let ?d = "snd (register_user rev ''t1'' [] [] (init_db None)
          \<lparr>uc_username = ''bob'', uc_email = ''b@y.com'', uc_password = ''secret''\<rparr>)"
  have a: "fst (delete_user [] ?d 1) = Inr ''User 1 deleted successfully''"
    by (simp add: eval_simps)
  have b: "list_all registers_nothing [GetAllUsers, DeleteAccount [] 1]" by simp
  from delete_then_get_not_found [OF a b, of rev] a b show ?thesis by simp
qed

section \<open>Uniqueness of usernames and emails\<close>





section \<open>Ids are never reused\<close>

lemma insert_user_seq: "insert_user d u e h c = Inr (i, d') \<Longrightarrow> seq d \<le> seq d'"
  by (auto simp: insert_user_def split: sum.splits if_splits)

lemma commit_seq: "seq d \<le> seq (commit d w)"
  by (cases w) (auto simp: delete_id_def dest: insert_user_seq split: sum.splits)

lemma commits_seq: "seq d \<le> seq (commits d ws)"
proof (induction ws arbitrary: d)
  case Nil
  show ?case by simp
next
  case (Cons w ws)
  have "seq d \<le> seq (commit d w)" by (rule commit_seq)
  also have "\<dots> \<le> seq (commits (commit d w) ws)" by (rule Cons.IH)
  finally show ?case by simp
qed

lemma assigned_bounds:
  "table_ok d \<Longrightarrow> j \<in> set (assigned d ws) \<Longrightarrow> seq d < j \<and> j \<le> seq (commits d ws)"
proof (induction d ws rule: assigned.induct)
  case (1 d)
  then show ?case by simp
next
  case (2 d u e h c ws)
  show ?case
  proof (cases "insert_user d u e h c")
    case (Inl x)
    with 2 show ?thesis by simp
  next
    case (Inr p)
    obtain i d' where p: "p = (i, d')" by (cases p)
    note ins = Inr [unfolded p]
    have ok': "table_ok d'" using "2.prems"(1) ins by (rule insert_user_ok)
    have i: "i = seq d + 1" and d': "seq d' = i"
      using insert_user_Inr(1,2) [OF "2.prems"(1) ins] by simp_all
    from "2.prems"(2) ins have "j = i \<or> j \<in> set (assigned d' ws)" by simp
    then show ?thesis
    proof
      assume "j = i"
      with i d' commits_seq [of d' ws] ins show ?thesis by simp
    next
      assume "j \<in> set (assigned d' ws)"
      with "2.IH"(2) [OF ins refl ok'] i d' ins show ?thesis by simp
    qed
  qed
next
  case (3 d i ws)
  from "3.prems" "3.IH" [OF delete_id_ok] show ?case by (simp add: delete_id_def)
qed

lemma register_user_unfold:
  "register_user sha256 created_at env1 env2 d user =
     (case select_username_or_email d (uc_username user) (uc_email user) of
        Some _ \<Rightarrow> (Inl (HTTPException 400 ''Username or email already exists''), d)
      | None \<Rightarrow>
          (case insert_user (commits d env1) (uc_username user) (uc_email user)
                  (hash_password sha256 (uc_password user)) created_at of
             Inl e \<Rightarrow> (Inl (except_clauses e), commits d env1)
           | Inr (i, d2) \<Rightarrow>
               (case select_id (commits d2 env2) i of
                  None \<Rightarrow> (Inl (HTTPException 500 not_subscriptable), commits d2 env2)
                | Some row \<Rightarrow> (Inr (user_response row), commits d2 env2))))"
  by (simp add: register_user_def register_try_def Let_def
      split: option.splits sum.splits prod.splits)

lemma delete_user_unfold:
  "delete_user env d user_id =
     (if - MAX_ROWID - 1 \<le> user_id \<and> user_id \<le> MAX_ROWID
      then (case select_id d user_id of
              None \<Rightarrow> (Inl (HTTPException 404 ''User not found''), d)
            | Some _ \<Rightarrow> (Inr (''User '' @ str_int user_id @ '' deleted successfully''),
                         delete_id (commits d env) user_id))
      else (Inl (Exception (OverflowError ''Python int too large to convert to SQLite INTEGER'')),
            d))"
  by (simp add: delete_user_def bind_int_def)


lemma register_success:
  assumes "fst (register_user sha256 created_at env1 env2 d user) = Inr r"
  obtains d2 where
    "select_username_or_email d (uc_username user) (uc_email user) = None"
    "insert_user (commits d env1) (uc_username user) (uc_email user)
       (hash_password sha256 (uc_password user)) created_at = Inr (resp_id r, d2)"
    "snd (register_user sha256 created_at env1 env2 d user) = commits d2 env2"
    "resp_id r \<in> row_id ` set (rows (commits d2 env2))"
proof -
  from assms have pre: "select_username_or_email d (uc_username user) (uc_email user) = None"
    by (auto simp: register_user_def register_try_def split: option.splits)
  obtain i d2 where ins:
    "insert_user (commits d env1) (uc_username user) (uc_email user)
       (hash_password sha256 (uc_password user)) created_at = Inr (i, d2)"
  proof (cases "insert_user (commits d env1) (uc_username user) (uc_email user)
       (hash_password sha256 (uc_password user)) created_at")
    case (Inl x)
    with assms pre show ?thesis by (simp add: register_user_def register_try_def)
  next
    case (Inr p)
    with that show ?thesis by (cases p) simp
  qed
  obtain row where row: "select_id (commits d2 env2) i = Some row" and r: "r = user_response row"
  proof (cases "select_id (commits d2 env2) i")
    case None
    with assms pre ins show ?thesis by (simp add: register_user_unfold)
  next
    case (Some row)
    with assms pre ins that show ?thesis by (simp add: register_user_unfold)
  qed
  from row have "row_id row = i" "row \<in> set (rows (commits d2 env2))"
    by (auto simp: select_id_def dest: find_SomeD)
  with r have ri: "resp_id r = i" "resp_id r \<in> row_id ` set (rows (commits d2 env2))"
    by (auto simp: user_response_def)
  have "snd (register_user sha256 created_at env1 env2 d user) = commits d2 env2"
    using pre ins row by (simp add: register_user_def register_try_def)
  with pre ins ri that show thesis by simp
qed

lemma issued_by_bounds:
  assumes "table_ok d" and "j \<in> set (issued_by sha256 d c)"
  shows "seq d < j \<and> j \<le> seq (step sha256 d c)"
proof (cases c)
  case (Register created_at env1 env2 user)
  let ?d1 = "commits d env1"
  from assms(2) Register
  have pre: "select_username_or_email d (uc_username user) (uc_email user) = None"
    by (auto split: option.splits)
  have ok1: "table_ok ?d1" using assms(1) by (rule commits_ok)
  show ?thesis
  proof (cases "insert_user ?d1 (uc_username user) (uc_email user)
                  (hash_password sha256 (uc_password user)) created_at")
    case (Inl x)
    with assms(2) Register pre have "j \<in> set (assigned d env1)" by simp
    from assigned_bounds [OF assms(1) this] Inl pre Register show ?thesis
      by (simp add: register_user_def register_try_def)
  next
    case (Inr p)
    obtain i d2 where p: "p = (i, d2)" by (cases p)
    note ins = Inr [unfolded p]
    have ok2: "table_ok d2" using ok1 ins by (rule insert_user_ok)
    have i: "i = seq ?d1 + 1" and d2: "seq d2 = i"
      using insert_user_Inr(1,2) [OF ok1 ins] by simp_all
    have fin: "step sha256 d c = commits d2 env2"
      using pre ins Register
      by (simp add: register_user_def register_try_def Let_def split: option.splits)
    have le: "seq d \<le> seq ?d1" "seq d2 \<le> seq (commits d2 env2)"
      by (rule commits_seq)+
    have "j \<in> set (assigned d env1) \<or> j \<in> set (assigned d2 env2)
          \<or> (\<exists>r. fst (register_user sha256 created_at env1 env2 d user) = Inr r \<and> j = resp_id r)"
    proof (cases "fst (register_user sha256 created_at env1 env2 d user)")
      case (Inl x)
      with assms(2) Register pre ins show ?thesis by auto
    next
      case (Inr r)
      with assms(2) Register pre ins show ?thesis by auto
    qed
    then show ?thesis
    proof (elim disjE exE conjE)
      assume "j \<in> set (assigned d env1)"
      from assigned_bounds [OF assms(1) this] le i d2 fin show ?thesis by simp
    next
      assume "j \<in> set (assigned d2 env2)"
      from assigned_bounds [OF ok2 this] le i d2 fin show ?thesis by simp
    next
      fix r assume r: "fst (register_user sha256 created_at env1 env2 d user) = Inr r"
        and j: "j = resp_id r"
      from r obtain d2' where "insert_user (commits d env1) (uc_username user) (uc_email user)
         (hash_password sha256 (uc_password user)) created_at = Inr (resp_id r, d2')"
        by (rule register_success)
      with ins have "resp_id r = i" by simp
      with j le i d2 fin show ?thesis by simp
    qed
  qed
next
  case (DeleteAccount env user_id)
  obtain m where m: "fst (delete_user env d user_id) = Inr m"
    and j: "j \<in> set (assigned d env)"
  proof (cases "fst (delete_user env d user_id)")
    case (Inl x)
    with assms(2) DeleteAccount show ?thesis by simp
  next
    case (Inr m)
    with assms(2) DeleteAccount that show ?thesis by simp
  qed
  from m have "step sha256 d c = delete_id (commits d env) user_id"
    by (auto simp: DeleteAccount delete_user_unfold split: option.splits if_splits)
  with assigned_bounds [OF assms(1) j] show ?thesis by (simp add: delete_id_def)
next
  case (Concurrent env)
  with assms(2) assigned_bounds [OF assms(1), of j env] show ?thesis by simp
qed (use assms(2) in auto)

lemma step_seq: "seq d \<le> seq (step sha256 d c)"
  by (simp add: step_writes commits_seq)

lemma run_calls_seq: "seq d \<le> seq (run_calls sha256 d cs)"
proof (induction cs arbitrary: d)
  case Nil
  show ?case by simp
next
  case (Cons c cs)
  have "seq d \<le> seq (step sha256 d c)" by (rule step_seq)
  also have "\<dots> \<le> seq (run_calls sha256 (step sha256 d c) cs)" by (rule Cons.IH)
  finally show ?case by simp
qed

lemma issued_bounds:
  "table_ok d \<Longrightarrow> j \<in> set (issued sha256 d cs) \<Longrightarrow> j \<le> seq (run_calls sha256 d cs)"
proof (induction cs arbitrary: d)
  case Nil
  then show ?case by simp
next
  case (Cons c cs)
  from Cons.prems(2) have "j \<in> set (issued_by sha256 d c) \<or> j \<in> set (issued sha256 (step sha256 d c) cs)"
    by simp
  then show ?case
  proof
    assume "j \<in> set (issued_by sha256 d c)"
    from issued_by_bounds [OF Cons.prems(1) this] run_calls_seq [of "step sha256 d c" sha256 cs]
    show ?thesis by simp
  next
    assume "j \<in> set (issued sha256 (step sha256 d c) cs)"
    from Cons.IH [OF step_ok [OF Cons.prems(1)] this] show ?thesis by simp
  qed
qed

text \<open>
  C10. The id that a successful \<open>register_user\<close> returns is greater than every id
  issued earlier in the history, deleted accounts included, and than every id that a
  concurrent registration was assigned before its \<^verbatim>\<open>INSERT\<close>.
\<close>

theorem ids_never_reused:
  assumes "fst (register_user sha256 created_at env1 env2
                  (run_calls sha256 (init_db None) cs) user) = Inr r"
  shows "list_all (\<lambda>j. j < resp_id r) (issued sha256 (init_db None) cs)
       \<and> list_all (\<lambda>j. j < resp_id r) (assigned (run_calls sha256 (init_db None) cs) env1)"
proof -
  let ?d = "run_calls sha256 (init_db None) cs"
  have ok: "table_ok ?d" by (rule reachable_ok)
  from assms obtain d2 where ins:
    "insert_user (commits ?d env1) (uc_username user) (uc_email user)
       (hash_password sha256 (uc_password user)) created_at = Inr (resp_id r, d2)"
    by (rule register_success)
  have new: "resp_id r = seq (commits ?d env1) + 1"
    using insert_user_Inr(1) [OF commits_ok [OF ok] ins] .
  have "j < resp_id r" if "j \<in> set (issued sha256 (init_db None) cs)" for j
    using issued_bounds [OF init_ok that] commits_seq [of ?d env1] new by simp
  moreover have "j < resp_id r" if "j \<in> set (assigned ?d env1)" for j
    using assigned_bounds [OF ok that] new by simp
  ultimately show ?thesis by (simp add: list_all_iff)
qed

theorem ids_never_reused_witness:
  "fst (register_user id ''t2'' [] []
          (run_calls id (init_db None)
             [Register ''t1'' [] [] \<lparr>uc_username = ''alice'', uc_email = ''a@x.com'', uc_password = ''pw1''\<rparr>,
              DeleteAccount [] 1])
          \<lparr>uc_username = ''bob'', uc_email = ''b@y.com'', uc_password = ''secret''\<rparr>)
     = Inr \<lparr>resp_id = 2, resp_username = ''bob'', resp_email = ''b@y.com'', resp_created_at = ''t2''\<rparr>
   \<and> issued id (init_db None)
        [Register ''t1'' [] [] \<lparr>uc_username = ''alice'', uc_email = ''a@x.com'', uc_password = ''pw1''\<rparr>,
         DeleteAccount [] 1] = [1]
   \<and> list_all (\<lambda>j. j < 2) (issued id (init_db None)
        [Register ''t1'' [] [] \<lparr>uc_username = ''alice'', uc_email = ''a@x.com'', uc_password = ''pw1''\<rparr>,
         DeleteAccount [] 1])"
proof -
  let ?cs = "[Register ''t1'' [] [] \<lparr>uc_username = ''alice'', uc_email = ''a@x.com'', uc_password = ''pw1''\<rparr>,
              DeleteAccount [] 1]"
  let ?r = "\<lparr>resp_id = 2, resp_username = ''bob'', resp_email = ''b@y.com'', resp_created_at = ''t2''\<rparr>"
  have a: "fst (register_user id ''t2'' [] [] (run_calls id (init_db None) ?cs)
          \<lparr>uc_username = ''bob'', uc_email = ''b@y.com'', uc_password = ''secret''\<rparr>) = Inr ?r"
    by (simp add: eval_simps)
  have b: "issued id (init_db None) ?cs = [1]"
    by (simp add: eval_simps)
  from ids_never_reused [OF a] a b show ?thesis by simp
qed

section \<open>Ids that were never issued\<close>

lemma insert_user_ids:
  "insert_user d u e h c = Inr (i, d') \<Longrightarrow> row_id ` set (rows d') = insert i (row_id ` set (rows d))"
  by (auto simp: insert_user_def set_insort_key split: sum.splits if_splits)

lemma commits_ids:
  "row_id ` set (rows (commits d ws)) \<subseteq> row_id ` set (rows d) \<union> set (assigned d ws)"
proof (induction d ws rule: assigned.induct)
  case (1 d)
  show ?case by simp
next
  case (2 d u e h c ws)
  show ?case
  proof (cases "insert_user d u e h c")
    case (Inl x)
    with "2.IH"(1) show ?thesis by simp
  next
    case (Inr p)
    obtain i d' where p: "p = (i, d')" by (cases p)
    note ins = Inr [unfolded p]
    from "2.IH"(2) [OF ins refl] insert_user_ids [OF ins] ins show ?thesis by auto
  qed
next
  case (3 d i ws)
  have "row_id ` set (rows (delete_id d i)) \<subseteq> row_id ` set (rows d)"
    by (auto simp: delete_id_def)
  with "3.IH" show ?case by auto
qed

lemma step_ids:
  "row_id ` set (rows (step sha256 d c)) \<subseteq> row_id ` set (rows d) \<union> set (issued_by sha256 d c)"
proof (cases c)
  case (Register created_at env1 env2 user)
  show ?thesis
  proof (cases "select_username_or_email d (uc_username user) (uc_email user)")
    case (Some row)
    then show ?thesis by (simp add: Register register_user_unfold)
  next
    case None
    note pre = None
    let ?d1 = "commits d env1"
    show ?thesis
    proof (cases "insert_user ?d1 (uc_username user) (uc_email user)
                  (hash_password sha256 (uc_password user)) created_at")
      case (Inl x)
      with pre commits_ids [of d env1] show ?thesis
        by (auto simp: Register register_user_unfold)
    next
      case (Inr p)
      obtain i d2 where p: "p = (i, d2)" by (cases p)
      note ins = Inr [unfolded p]
      have sub: "row_id ` set (rows (commits d2 env2))
                 \<subseteq> insert i (row_id ` set (rows d) \<union> set (assigned d env1)) \<union> set (assigned d2 env2)"
        using commits_ids [of d2 env2] commits_ids [of d env1] insert_user_ids [OF ins] by auto
      show ?thesis
      proof (cases "select_id (commits d2 env2) i")
        case None
        then have "i \<notin> row_id ` set (rows (commits d2 env2))"
          by (auto simp: select_id_None)
        with sub pre ins None show ?thesis
          by (auto simp: Register register_user_unfold)
      next
        case (Some row)
        then have "row_id row = i" by (auto simp: select_id_def dest: find_SomeD)
        with sub pre ins Some show ?thesis
          by (auto simp: Register register_user_unfold user_response_def)
      qed
    qed
  qed
next
  case (DeleteAccount env user_id)
  show ?thesis
  proof (cases "fst (delete_user env d user_id)")
    case (Inl x)
    then have "snd (delete_user env d user_id) = d"
      by (auto simp: delete_user_unfold split: if_splits option.splits)
    with Inl show ?thesis by (simp add: DeleteAccount)
  next
    case (Inr m)
    then have "snd (delete_user env d user_id) = delete_id (commits d env) user_id"
      by (auto simp: delete_user_unfold split: if_splits option.splits)
    moreover have "row_id ` set (rows (delete_id (commits d env) user_id))
                   \<subseteq> row_id ` set (rows (commits d env))"
      by (auto simp: delete_id_def)
    ultimately show ?thesis using Inr commits_ids [of d env] by (auto simp: DeleteAccount)
  qed
next
  case (Concurrent env)
  with commits_ids [of d env] show ?thesis by simp
qed (simp_all add: login_user_def get_all_users_def get_user_def Let_def
       split: option.splits sum.splits)

lemma run_calls_ids:
  "row_id ` set (rows (run_calls sha256 d cs)) \<subseteq> row_id ` set (rows d) \<union> set (issued sha256 d cs)"
proof (induction cs arbitrary: d)
  case Nil
  show ?case by simp
next
  case (Cons c cs)
  from Cons.IH [of "step sha256 d c"] step_ids [of sha256 d c] show ?case by auto
qed

text \<open>
  C9 (as the code has it). For an id within the signed 64-bit range that no registration
  of the history has issued, \<open>get_user\<close> and \<open>delete_user\<close> both answer 404 and leave
  the database as it is.
\<close>

theorem never_issued_not_found:
  assumes "user_id \<notin> set (issued sha256 (init_db None) cs)"
    and "- MAX_ROWID - 1 \<le> user_id" and "user_id \<le> MAX_ROWID"
  shows "get_user (run_calls sha256 (init_db None) cs) user_id
         = (Inl (HTTPException 404 ''User not found''), run_calls sha256 (init_db None) cs)
       \<and> delete_user env (run_calls sha256 (init_db None) cs) user_id
         = (Inl (HTTPException 404 ''User not found''), run_calls sha256 (init_db None) cs)"
proof -
  from run_calls_ids [of sha256 "init_db None" cs] assms(1)
  have "user_id \<notin> row_id ` set (rows (run_calls sha256 (init_db None) cs))" by auto
  then have "select_id (run_calls sha256 (init_db None) cs) user_id = None"
    by (simp only: select_id_None not_False_eq_True)
  with assms(2,3) show ?thesis by (simp add: get_user_def delete_user_def bind_int_def)
qed

theorem never_issued_not_found_witness:
  "999 \<notin> set (issued id (init_db None)
       [Register ''t1'' [] [] \<lparr>uc_username = ''alice'', uc_email = ''a@x.com'', uc_password = ''pw1''\<rparr>])
   \<and> - MAX_ROWID - 1 \<le> 999 \<and> 999 \<le> MAX_ROWID
   \<and> get_user (run_calls id (init_db None)
       [Register ''t1'' [] [] \<lparr>uc_username = ''alice'', uc_email = ''a@x.com'', uc_password = ''pw1''\<rparr>]) 999
     = (Inl (HTTPException 404 ''User not found''), run_calls id (init_db None)
       [Register ''t1'' [] [] \<lparr>uc_username = ''alice'', uc_email = ''a@x.com'', uc_password = ''pw1''\<rparr>])
   \<and> delete_user [] (run_calls id (init_db None)
       [Register ''t1'' [] [] \<lparr>uc_username = ''alice'', uc_email = ''a@x.com'', uc_password = ''pw1''\<rparr>]) 999
     = (Inl (HTTPException 404 ''User not found''), run_calls id (init_db None)
       [Register ''t1'' [] [] \<lparr>uc_username = ''alice'', uc_email = ''a@x.com'', uc_password = ''pw1''\<rparr>])"
proof -
  let ?cs = "[Register ''t1'' [] [] \<lparr>uc_username = ''alice'', uc_email = ''a@x.com'', uc_password = ''pw1''\<rparr>]"
  have a: "999 \<notin> set (issued id (init_db None) ?cs)" by (simp add: eval_simps)
  have b: "- MAX_ROWID - 1 \<le> 999" and c: "999 \<le> MAX_ROWID" by (simp_all add: MAX_ROWID_def)
  from never_issued_not_found [OF a b c, of "[]"] a b c show ?thesis by simp
qed

text \<open>
  Outside the 64-bit range the claim fails: \<open>2 ^ 63\<close> was never issued, and both handlers
  raise \<^verbatim>\<open>OverflowError\<close> when the id is bound to the query, not the 404.
\<close>

theorem never_issued_counterexample:
  "9223372036854775808 \<notin> set (issued id (init_db None) [])
   \<and> fst (get_user (init_db None) 9223372036854775808)
     = Inl (Exception (OverflowError ''Python int too large to convert to SQLite INTEGER''))
   \<and> fst (get_user (init_db None) 9223372036854775808)
     \<noteq> Inl (HTTPException 404 ''User not found'')
   \<and> fst (delete_user [] (init_db None) 9223372036854775808)
     = Inl (Exception (OverflowError ''Python int too large to convert to SQLite INTEGER''))
   \<and> fst (delete_user [] (init_db None) 9223372036854775808)
     \<noteq> Inl (HTTPException 404 ''User not found'')"
  by (simp add: eval_simps)

section \<open>The listing\<close>

lemma creation_order_rows:
  "table_ok d \<Longrightarrow> creation_order d (rows d) ws = rows (commits d ws)"
proof (induction ws arbitrary: d)
  case Nil
  show ?case by simp
next
  case (Cons w ws)
  show ?case
  proof (cases w)
    case (InsertUser u e h c)
    show ?thesis
    proof (cases "insert_user d u e h c")
      case (Inl x)
      with Cons InsertUser show ?thesis by simp
    next
      case (Inr p)
      obtain i d' where p: "p = (i, d')" by (cases p)
      note ins = Inr [unfolded p]
      have ok': "table_ok d'" using Cons.prems ins by (rule insert_user_ok)
      have "rows d' = rows d @ [\<lparr>row_id = i, row_username = u, row_email = e,
                  row_password_hash = h, row_created_at = c\<rparr>]"
        using insert_user_Inr(2) [OF Cons.prems ins] by simp
      with Cons.IH [OF ok'] ins InsertUser show ?thesis by simp
    qed
  next
    case (DeleteUser i)
    have "rows (delete_id d i) = filter (\<lambda>r. row_id r \<noteq> i) (rows d)"
      by (simp add: delete_id_def)
    with Cons.IH [OF delete_id_ok [OF Cons.prems], of i] DeleteUser show ?thesis by simp
  qed
qed

lemma run_calls_log: "run_calls sha256 d cs = commits d (log sha256 d cs)"
  by (induction cs arbitrary: d) (simp_all add: step_writes commits_append)

text \<open>
  C8. After any history from the empty database, \<open>get_all_users\<close> returns the views of
  exactly the accounts that were created and not deleted, in the order of their
  creation, and does not change the database.
\<close>

theorem list_in_creation_order:
  "get_all_users (run_calls sha256 (init_db None) cs)
   = (map user_response (creation_order (init_db None) [] (log sha256 (init_db None) cs)),
      run_calls sha256 (init_db None) cs)"
proof -
  have "creation_order (init_db None) (rows (init_db None)) (log sha256 (init_db None) cs)
        = rows (commits (init_db None) (log sha256 (init_db None) cs))"
    using init_ok by (rule creation_order_rows)
  then show ?thesis by (simp add: get_all_users_def run_calls_log)
qed

theorem list_in_creation_order_witness:
  "fst (get_all_users (run_calls id (init_db None)
     [Register ''t1'' [] [] \<lparr>uc_username = ''alice'', uc_email = ''a@x.com'', uc_password = ''pw1''\<rparr>,
      Register ''t2'' [] [] \<lparr>uc_username = ''bob'', uc_email = ''b@y.com'', uc_password = ''secret''\<rparr>]))
   = [\<lparr>resp_id = 1, resp_username = ''alice'', resp_email = ''a@x.com'', resp_created_at = ''t1''\<rparr>,
      \<lparr>resp_id = 2, resp_username = ''bob'', resp_email = ''b@y.com'', resp_created_at = ''t2''\<rparr>]"
  using list_in_creation_order [of id
     "[Register ''t1'' [] [] \<lparr>uc_username = ''alice'', uc_email = ''a@x.com'', uc_password = ''pw1''\<rparr>,
      Register ''t2'' [] [] \<lparr>uc_username = ''bob'', uc_email = ''b@y.com'', uc_password = ''secret''\<rparr>]"]
  by (simp add: eval_simps)

section \<open>The password hash in outputs\<close>














lemma login_ok_public: "login_ok row = login_ok (row\<lparr>row_password_hash := h\<rparr>)"
  by (simp add: login_ok_def)



end
